theory Spec2Isabelle
  imports Main "HOL-Library.Word" "HOL-Library.Sublist"
begin

section \<open>The decoder of sites/home/decoder/decoder.js\<close>

text \<open>
  The file holds two functions with a value semantics, \<open>covertToBinary\<close> and
  \<open>decodePayload\<close>. Both are embedded here together with the JavaScript built-ins
  they call. A JavaScript \<open>throw\<close> is a value \<open>Inl e\<close> of a sum type, the console
  is a list of diagnostics returned beside the result, and \<open>BigInt\<close> values and
  integer-valued Numbers are HOL integers. Strings are lists of 8-bit characters,
  read as ASCII text.
\<close>

subsection \<open>Errors\<close>

text \<open>
  \<open>SyntaxError\<close> is what \<open>BigInt(string)\<close> throws on unparsable text and
  \<open>TypeError\<close> what a property read on \<open>null\<close> or \<open>undefined\<close> throws; the two
  others stand for what \<open>atob\<close> and the CBOR decoder throw.
\<close>

datatype js_error = SyntaxError | TypeError | InvalidCharacterError | CborError

type_synonym byte = "8 word"

subsection \<open>Values and diagnostics\<close>

text \<open>
  The values a CBOR decoder hands back, as far as the decoder looks at them:
  \<open>undefined\<close>, \<open>null\<close>, booleans, integer-valued Numbers, strings, byte strings
  (a \<open>Uint8Array\<close>, or a \<open>Buffer\<close>, which is a \<open>Uint8Array\<close> too), arrays, and plain
  objects as lists of own properties (the first entry of a key counts).
\<close>

datatype jsval =
    JUndefined
  | JNull
  | JBool bool
  | JNum int
  | JStr string
  | JBytes "byte list"
  | JArr "jsval list"
  | JObj "(string \<times> jsval) list"

text \<open>
  The argument \<open>bytes\<close> of \<open>covertToBinary\<close>: absent (\<open>undefined\<close> or \<open>null\<close>), or an
  array or typed array whose elements are integer-valued Numbers. A \<open>Uint8Array\<close> is
  the case where every element lies in 0..255; an \<open>Int8Array\<close> or a plain array may
  hold negative elements.
\<close>

datatype bytes_arg = Absent | Elements "int list"

text \<open>What the console receives, one constructor per logging call of the file.\<close>

datatype diag =
    ConversionError js_error bytes_arg
  | StructureMismatch jsval
  | SkipInvalid nat jsval
  | FilterZero nat
  | ItemError nat js_error jsval

subsection \<open>Number and BigInt to text: \<open>toString(radix)\<close>\<close>

text \<open>The character of a digit below 36: \<open>0\<close> to \<open>9\<close>, then \<open>a\<close> to \<open>z\<close>, by ASCII code.\<close>

definition digit_char :: "nat \<Rightarrow> char" where
  "digit_char d = (if d < 10 then char_of (48 + d) else char_of (87 + d))"

text \<open>The digits of a natural number, most significant first; radix from 2 to 36.\<close>

function digits_of :: "nat \<Rightarrow> nat \<Rightarrow> string" where
  "digits_of radix n =
     (if radix < 2 \<or> n < radix then [digit_char n]
      else digits_of radix (n div radix) @ [digit_char (n mod radix)])"
  by pat_completeness auto
termination
  by (relation "measure (\<lambda>(radix, n). n)") auto

declare digits_of.simps [simp del]

text \<open>
  \<open>x.toString(radix)\<close> for an integer-valued Number or a BigInt \<open>x\<close>: a minus sign for
  a negative value, then the digits of the magnitude, lower case, no prefix.
\<close>

definition js_toString :: "nat \<Rightarrow> int \<Rightarrow> string" where
  "js_toString radix x =
     (if x < 0 then CHR ''-'' # digits_of radix (nat (- x)) else digits_of radix (nat x))"

text \<open>\<open>s.padStart(n, c)\<close> for a pad string of one character.\<close>

definition padStart :: "nat \<Rightarrow> char \<Rightarrow> string \<Rightarrow> string" where
  "padStart n c s = replicate (n - length s) c @ s"

subsection \<open>Text to BigInt: \<open>BigInt(string)\<close>\<close>

text \<open>The value of a digit character in radix up to 36; letters in either case.\<close>

definition digit_val :: "char \<Rightarrow> nat option" where
  "digit_val c =
     (let k = of_char c :: nat in
      if 48 \<le> k \<and> k \<le> 57 then Some (k - 48)
      else if 97 \<le> k \<and> k \<le> 122 then Some (k - 87)
      else if 65 \<le> k \<and> k \<le> 90 then Some (k - 55)
      else None)"

fun parse_acc :: "nat \<Rightarrow> nat \<Rightarrow> string \<Rightarrow> nat option" where
  "parse_acc radix acc [] = Some acc"
| "parse_acc radix acc (c # cs) =
     (case digit_val c of
        None \<Rightarrow> None
      | Some d \<Rightarrow> if d < radix then parse_acc radix (acc * radix + d) cs else None)"

text \<open>One or more digits of the radix, read as an unsigned number.\<close>

definition parse_radix :: "nat \<Rightarrow> string \<Rightarrow> nat option" where
  "parse_radix radix s = (if s = [] then None else parse_acc radix 0 s)"

text \<open>The ASCII white space and line terminators that string-to-number conversion trims.\<close>

definition is_ws :: "char \<Rightarrow> bool" where
  "is_ws c = (of_char c \<in> {9, 10, 11, 12, 13, 32 :: nat})"

definition trim :: "string \<Rightarrow> string" where
  "trim s = rev (dropWhile is_ws (rev (dropWhile is_ws s)))"

text \<open>
  \<open>BigInt(s)\<close> on a string, the StringToBigInt grammar of ECMAScript: trimmed white
  space; the empty string is \<open>0n\<close>; \<open>0x\<close>, \<open>0o\<close> and \<open>0b\<close> literals (either case of the
  letter) take no sign; a decimal literal takes one optional sign; anything else throws
  a \<open>SyntaxError\<close>.
\<close>

definition js_BigInt :: "string \<Rightarrow> js_error + int" where
  "js_BigInt s =
     (let t = trim s;
          lift = (\<lambda>r. case r of None \<Rightarrow> Inl SyntaxError | Some n \<Rightarrow> Inr (int n))
      in if t = [] then Inr 0
         else if take 2 t = ''0x'' \<or> take 2 t = ''0X'' then lift (parse_radix 16 (drop 2 t))
         else if take 2 t = ''0o'' \<or> take 2 t = ''0O'' then lift (parse_radix 8 (drop 2 t))
         else if take 2 t = ''0b'' \<or> take 2 t = ''0B'' then lift (parse_radix 2 (drop 2 t))
         else if hd t = CHR ''-'' then
           (case parse_radix 10 (tl t) of None \<Rightarrow> Inl SyntaxError | Some n \<Rightarrow> Inr (- int n))
         else if hd t = CHR ''+'' then lift (parse_radix 10 (tl t))
         else lift (parse_radix 10 t))"

subsection \<open>\<open>covertToBinary\<close>\<close>

text \<open>
  \<open>Array.from(bytes, byte => byte.toString(16).padStart(2, '0')).join('')\<close>, the
  expression of lines 22, 97 and 109, on the elements of the array.
\<close>

definition hex_of :: "int list \<Rightarrow> string" where
  "hex_of xs = concat (map (\<lambda>byte. padStart 2 (CHR ''0'') (js_toString 16 byte)) xs)"

text \<open>\<open>BigInt(`0x${hex || '0'}`)\<close>: the empty string is falsy, so it is replaced by \<open>'0'\<close>.\<close>

definition bigint_of_hex :: "string \<Rightarrow> js_error + int" where
  "bigint_of_hex hex = js_BigInt (''0x'' @ (if hex = [] then ''0'' else hex))"

text \<open>\<open>v.toString(2) || '0'\<close>.\<close>

definition binary_or_zero :: "int \<Rightarrow> string" where
  "binary_or_zero v = (let s = js_toString 2 v in if s = [] then ''0'' else s)"

text \<open>The body of the \<open>try\<close> block of \<open>covertToBinary\<close>, lines 21 to 25.\<close>

definition convert_try :: "int list \<Rightarrow> js_error + string" where
  "convert_try xs =
     (let hex = hex_of xs in
      case bigint_of_hex hex of
        Inl e \<Rightarrow> Inl e
      | Inr bigIntValue \<Rightarrow> Inr (binary_or_zero bigIntValue))"

text \<open>
  \<open>covertToBinary\<close>: the early return on an absent or empty argument, then the
  \<open>try\<close> block, whose \<open>catch\<close> logs and returns the string \<open>Error\<close>. The result is the
  returned string and what was logged.
\<close>

definition covertToBinary :: "bytes_arg \<Rightarrow> string \<times> diag list" where
  "covertToBinary bytes =
     (case bytes of
        Absent \<Rightarrow> (''0'', [])
      | Elements xs \<Rightarrow>
          if length xs = 0 then (''0'', [])
          else (case convert_try xs of
                  Inr s \<Rightarrow> (s, [])
                | Inl error \<Rightarrow> (''Error'', [ConversionError error bytes])))"

text \<open>A \<open>Uint8Array\<close> as an argument: its elements read as the Numbers 0 to 255.\<close>

definition uint8array :: "byte list \<Rightarrow> bytes_arg" where
  "uint8array bs = Elements (map uint bs)"

subsection \<open>\<open>decodePayload\<close>\<close>

text \<open>The object literal of lines 111 to 116: four string fields.\<close>

record contribution =
  bucketInBinary :: string
  valueInBinary :: string
  bucketInDecimal :: string
  valueInDecimal :: string

text \<open>
  Truthiness, as \<open>!x\<close> and \<open>x && y\<close> test it: \<open>undefined\<close>, \<open>null\<close>, \<open>false\<close>, \<open>0\<close> and
  the empty string are falsy; every object, array and typed array is truthy.
\<close>

fun truthy :: "jsval \<Rightarrow> bool" where
  "truthy JUndefined = False"
| "truthy JNull = False"
| "truthy (JBool b) = b"
| "truthy (JNum n) = (n \<noteq> 0)"
| "truthy (JStr s) = (s \<noteq> [])"
| "truthy (JBytes bs) = True"
| "truthy (JArr xs) = True"
| "truthy (JObj kvs) = True"

text \<open>
  The property read \<open>x.k\<close> for the names the decoder reads, \<open>data\<close>, \<open>bucket\<close> and
  \<open>value\<close>. No built-in prototype defines them, so only an own property of a plain
  object answers; on \<open>null\<close> and \<open>undefined\<close> the read throws, on any other value it
  gives \<open>undefined\<close>.
\<close>

fun get_prop :: "jsval \<Rightarrow> string \<Rightarrow> js_error + jsval" where
  "get_prop JUndefined k = Inl TypeError"
| "get_prop JNull k = Inl TypeError"
| "get_prop (JObj kvs) k = (case map_of kvs k of None \<Rightarrow> Inr JUndefined | Some v \<Rightarrow> Inr v)"
| "get_prop x k = Inr JUndefined"

text \<open>
  \<open>!decoded || !Array.isArray(decoded.data)\<close>, line 78, negated: the array when the
  test lets the value through. \<open>||\<close> does not read \<open>decoded.data\<close> of a falsy value.
\<close>

definition data_array :: "jsval \<Rightarrow> js_error + jsval list option" where
  "data_array decoded =
     (if \<not> truthy decoded then Inr None
      else case get_prop decoded ''data'' of
             Inl e \<Rightarrow> Inl e
           | Inr (JArr items) \<Rightarrow> Inr (Some items)
           | Inr _ \<Rightarrow> Inr None)"

text \<open>
  \<open>item && (item.k instanceof Uint8Array || (typeof Buffer !== 'undefined' &&
  item.k instanceof Buffer))\<close>, lines 86 and 87: the bytes when the test holds. \<open>&&\<close>
  does not read \<open>item.k\<close> of a falsy item; a \<open>Buffer\<close> is a \<open>Uint8Array\<close>.
\<close>

definition bytes_field :: "jsval \<Rightarrow> string \<Rightarrow> js_error + byte list option" where
  "bytes_field item k =
     (if \<not> truthy item then Inr None
      else case get_prop item k of
             Inl e \<Rightarrow> Inl e
           | Inr (JBytes bs) \<Rightarrow> Inr (Some bs)
           | Inr _ \<Rightarrow> Inr None)"

text \<open>
  The body of the \<open>try\<close> block of the callback, lines 95 to 116, on the bytes of
  \<open>item.bucket\<close> and \<open>item.value\<close>: a throw, or the callback's return value (\<open>None\<close> is
  \<open>null\<close>), each with what was logged up to there.
\<close>

definition item_try :: "nat \<Rightarrow> byte list \<Rightarrow> byte list \<Rightarrow> (js_error + contribution option) \<times> diag list" where
  "item_try index bucket valueBytes =
     (let valueHex = hex_of (map uint valueBytes) in
      case bigint_of_hex valueHex of
        Inl e \<Rightarrow> (Inl e, [])
      | Inr valueBigInt \<Rightarrow>
          if valueBigInt = 0 then (Inr None, [FilterZero index])
          else
            (case covertToBinary (uint8array bucket) of
               (bucketInBinary', logged) \<Rightarrow>
                 (let valueInBinary' = binary_or_zero valueBigInt in
                  (case bigint_of_hex (hex_of (map uint bucket)) of
                     Inl e \<Rightarrow> (Inl e, logged)
                   | Inr bucketBigInt \<Rightarrow>
                       (Inr (Some \<lparr>bucketInBinary = bucketInBinary',
                                   valueInBinary = valueInBinary',
                                   bucketInDecimal = js_toString 10 bucketBigInt,
                                   valueInDecimal = js_toString 10 valueBigInt\<rparr>),
                        logged)))))"

text \<open>
  The callback of \<open>decoded.data.map\<close>, lines 84 to 122. The validity tests stand
  outside the \<open>try\<close>, so a throw there leaves the callback; a throw inside is caught,
  logged and turned into \<open>null\<close>.
\<close>

definition process_item :: "jsval \<Rightarrow> nat \<Rightarrow> (js_error + contribution option) \<times> diag list" where
  "process_item item index =
     (case bytes_field item ''bucket'' of
        Inl e \<Rightarrow> (Inl e, [])
      | Inr isBucketValid \<Rightarrow>
     (case bytes_field item ''value'' of
        Inl e \<Rightarrow> (Inl e, [])
      | Inr isValueValid \<Rightarrow>
     (case (isBucketValid, isValueValid) of
        (Some bucket, Some valueBytes) \<Rightarrow>
          (case item_try index bucket valueBytes of
             (Inl error, logged) \<Rightarrow> (Inr None, logged @ [ItemError index error item])
           | (Inr r, logged) \<Rightarrow> (Inr r, logged))
      | _ \<Rightarrow> (Inr None, [SkipInvalid index item]))))"

text \<open>
  \<open>Array.prototype.map\<close> with the callback above: the items in order, each with its
  index, counted from \<open>index\<close>; a throw of the callback ends the loop.
\<close>

fun map_items :: "nat \<Rightarrow> jsval list \<Rightarrow> (js_error + contribution option list) \<times> diag list" where
  "map_items index [] = (Inr [], [])"
| "map_items index (item # items) =
     (case process_item item index of
        (Inl e, logged) \<Rightarrow> (Inl e, logged)
      | (Inr r, logged) \<Rightarrow>
          (case map_items (Suc index) items of
             (Inl e, logged') \<Rightarrow> (Inl e, logged @ logged')
           | (Inr rs, logged') \<Rightarrow> (Inr (r # rs), logged @ logged')))"

text \<open>\<open>allContributions.filter(item => item !== null)\<close>, line 125.\<close>

definition filter_non_null :: "contribution option list \<Rightarrow> contribution list" where
  "filter_non_null allContributions = map the (filter (\<lambda>item. item \<noteq> None) allContributions)"

text \<open>Lines 77 to 127: what \<open>decodePayload\<close> does with the decoded value.\<close>

definition decode_value :: "jsval \<Rightarrow> (js_error + contribution list) \<times> diag list" where
  "decode_value decoded =
     (case data_array decoded of
        Inl e \<Rightarrow> (Inl e, [])
      | Inr None \<Rightarrow> (Inr [], [StructureMismatch decoded])
      | Inr (Some items) \<Rightarrow>
          (case map_items 0 items of
             (Inl e, logged) \<Rightarrow> (Inl e, logged)
           | (Inr allContributions, logged) \<Rightarrow> (Inr (filter_non_null allContributions), logged)))"

text \<open>
  \<open>decodePayload\<close>. The platform's \<open>atob\<close> and the CBOR library's \<open>decodeFirst\<close> are
  not part of the file and are parameters: each throws or returns. \<open>atob\<close> returns a
  string of characters 0 to 255, whose codes become the bytes of \<open>arr\<close>. Neither call
  stands in a \<open>try\<close>, and the rejected promise of \<open>decodeFirst\<close> is thrown by \<open>await\<close>.
  The result is the rejection or the fulfilment of the returned promise, and the log.
\<close>

definition decodePayload ::
  "(string \<Rightarrow> js_error + string) \<Rightarrow> (byte list \<Rightarrow> js_error + jsval) \<Rightarrow> string
     \<Rightarrow> (js_error + contribution list) \<times> diag list" where
  "decodePayload atob decodeFirst payload =
     (case atob payload of
        Inl e \<Rightarrow> (Inl e, [])
      | Inr binary \<Rightarrow>
          (let arr = map (\<lambda>c. of_char c :: byte) binary in
           case decodeFirst arr of
             Inl e \<Rightarrow> (Inl e, [])
           | Inr decoded \<Rightarrow> decode_value decoded))"

subsection \<open>Notions of the specification\<close>

text \<open>
  The unsigned big-endian integer a byte sequence denotes: the first byte is the most
  significant one. The empty sequence denotes 0.
\<close>

definition be_value :: "byte list \<Rightarrow> nat" where
  "be_value bs = foldl (\<lambda>acc b. acc * 256 + unat b) 0 bs"

text \<open>Text over the binary digits, and text over the decimal digits; neither is empty.\<close>

definition binary_text :: "string \<Rightarrow> bool" where
  "binary_text s = (s \<noteq> [] \<and> list_all (\<lambda>c. c = CHR ''0'' \<or> c = CHR ''1'') s)"

definition decimal_text :: "string \<Rightarrow> bool" where
  "decimal_text s = (s \<noteq> [] \<and> list_all (\<lambda>c. c \<in> set ''0123456789'') s)"

text \<open>No superfluous leading zero: the text is the single digit 0, or does not start with 0.\<close>

definition no_leading_zero :: "string \<Rightarrow> bool" where
  "no_leading_zero s = (s = ''0'' \<or> hd s \<noteq> CHR ''0'')"

text \<open>
  The bytes of the field \<open>k\<close> of an array element: present when the element is an
  object that has the field and the field is a byte string, missing otherwise.
\<close>

definition field_bytes :: "jsval \<Rightarrow> string \<Rightarrow> byte list option" where
  "field_bytes item k =
     (case item of
        JObj kvs \<Rightarrow> (case map_of kvs k of Some (JBytes bs) \<Rightarrow> Some bs | _ \<Rightarrow> None)
      | _ \<Rightarrow> None)"

text \<open>
  The decoded value has a \<open>data\<close> field that holds an array: the array, if so.
\<close>

definition data_field :: "jsval \<Rightarrow> jsval list option" where
  "data_field decoded =
     (case decoded of
        JObj kvs \<Rightarrow> (case map_of kvs ''data'' of Some (JArr items) \<Rightarrow> Some items | _ \<Rightarrow> None)
      | _ \<Rightarrow> None)"

text \<open>
  What the callback of \<open>decodePayload\<close> returns for an array element, the index left
  out: the record, or \<open>None\<close> when the callback returns \<open>null\<close> and the element is
  skipped. The index only reaches the log.
\<close>

definition item_record :: "jsval \<Rightarrow> contribution option" where
  "item_record item = (case fst (process_item item 0) of Inl e \<Rightarrow> None | Inr r \<Rightarrow> r)"

text \<open>A binary text and a decimal text that denote the same number.\<close>

definition same_number :: "string \<Rightarrow> string \<Rightarrow> bool" where
  "same_number b d =
     (case (parse_radix 2 b, parse_radix 10 d) of
        (Some m, Some n) \<Rightarrow> m = n
      | _ \<Rightarrow> False)"

text \<open>The field texts of a record as the output contract words them.\<close>

definition well_formed :: "contribution \<Rightarrow> bool" where
  "well_formed r =
     (binary_text (bucketInBinary r) \<and> no_leading_zero (bucketInBinary r) \<and>
      binary_text (valueInBinary r) \<and> no_leading_zero (valueInBinary r) \<and>
      decimal_text (bucketInDecimal r) \<and> no_leading_zero (bucketInDecimal r) \<and>
      decimal_text (valueInDecimal r) \<and> no_leading_zero (valueInDecimal r))"

definition consistent :: "contribution \<Rightarrow> bool" where
  "consistent r =
     (same_number (bucketInBinary r) (bucketInDecimal r) \<and>
      same_number (valueInBinary r) (valueInDecimal r) \<and>
      parse_radix 2 (valueInBinary r) \<noteq> Some 0)"

subsection \<open>Example values\<close>

text \<open>
  The decoded form of the CBOR map \<open>{bucket: b, value: v}\<close> with two byte strings, and
  of the envelope \<open>{data: [...]}\<close>.
\<close>

abbreviation pair_item :: "byte list \<Rightarrow> byte list \<Rightarrow> jsval" where
  "pair_item b v \<equiv> JObj [(''bucket'', JBytes b), (''value'', JBytes v)]"

abbreviation envelope :: "jsval list \<Rightarrow> jsval" where
  "envelope items \<equiv> JObj [(''data'', JArr items)]"

section \<open>Properties\<close>

subsection \<open>Digits, hexadecimal text and \<open>BigInt\<close>\<close>

lemma byte_bound: "unat (b :: byte) < 256"
proof -
  have "unat b < 2 ^ LENGTH(8)" by (rule unsigned_less)
  then show ?thesis by simp
qed

lemma digit_val_digit_char: "d < 36 \<Longrightarrow> digit_val (digit_char d) = Some d"
  by (simp add: digit_val_def digit_char_def Let_def)

lemma is_ws_digit_val: "is_ws c \<Longrightarrow> digit_val c = None"
  by (auto simp: is_ws_def digit_val_def Let_def)

lemma digit_char_0: "digit_char 0 = CHR ''0''"
  by (simp add: digit_char_def char_of_eq_iff)

lemma digit_char_eq_0: "d < 36 \<Longrightarrow> digit_char d = CHR ''0'' \<Longrightarrow> d = 0"
proof -
  assume lt: "d < 36" and eq: "digit_char d = CHR ''0''"
  from lt have "digit_val (digit_char d) = Some d" by (rule digit_val_digit_char)
  moreover have "digit_val (CHR ''0'') = Some 0" by (simp add: digit_val_def)
  ultimately show "d = 0" using eq by simp
qed

lemma digits_of_small: "n < r \<Longrightarrow> digits_of r n = [digit_char n]"
  by (subst digits_of.simps) simp

lemma digits_of_large:
  "2 \<le> r \<Longrightarrow> r \<le> n \<Longrightarrow> digits_of r n = digits_of r (n div r) @ [digit_char (n mod r)]"
  by (subst digits_of.simps) simp

lemma digits_of_nonempty: "digits_of r n \<noteq> []"
  by (subst digits_of.simps) simp

lemma parse_acc_append:
  "parse_acc r acc (s @ t) = (case parse_acc r acc s of None \<Rightarrow> None | Some a \<Rightarrow> parse_acc r a t)"
  by (induction s arbitrary: acc) (auto split: option.splits)

lemma parse_acc_digits_of:
  assumes "2 \<le> r" "r \<le> 36"
  shows "parse_acc r acc (digits_of r n) = Some (acc * r ^ length (digits_of r n) + n)"
  using assms
proof (induction r n arbitrary: acc rule: digits_of.induct)
  case (1 radix n)
  show ?case
  proof (cases "n < radix")
    case True
    moreover have "digit_val (digit_char n) = Some n"
      using True 1(3) by (intro digit_val_digit_char) simp
    ultimately show ?thesis by (simp add: digits_of_small)
  next
    case False
    have dv: "digit_val (digit_char (n mod radix)) = Some (n mod radix)"
      using 1(2,3) by (intro digit_val_digit_char) (simp add: less_le_trans [OF mod_less_divisor])
    have ih: "parse_acc radix acc (digits_of radix (n div radix)) =
        Some (acc * radix ^ length (digits_of radix (n div radix)) + n div radix)"
      using 1(1) [of acc] False 1(2,3) by simp
    show ?thesis
      using 1(2) False by (simp add: digits_of_large parse_acc_append ih dv algebra_simps)
  qed
qed

lemma parse_radix_digits_of:
  "2 \<le> r \<Longrightarrow> r \<le> 36 \<Longrightarrow> parse_radix r (digits_of r n) = Some n"
  by (simp add: parse_radix_def digits_of_nonempty parse_acc_digits_of)

lemma set_digits_of: "2 \<le> r \<Longrightarrow> set (digits_of r n) \<subseteq> digit_char ` {..<r}"
proof (induction r n rule: digits_of.induct)
  case (1 radix n)
  show ?case
  proof (cases "n < radix")
    case True
    then show ?thesis by (simp add: digits_of_small)
  next
    case False
    then show ?thesis using 1 by (simp add: digits_of_large)
  qed
qed

lemma hd_digits_of:
  "2 \<le> r \<Longrightarrow> r \<le> 36 \<Longrightarrow> 0 < n \<Longrightarrow> hd (digits_of r n) \<noteq> CHR ''0''"
proof (induction r n rule: digits_of.induct)
  case (1 radix n)
  show ?case
  proof (cases "n < radix")
    case True
    then show ?thesis using 1(3,4) digit_char_eq_0 [of n] by (auto simp: digits_of_small)
  next
    case False
    then have "0 < n div radix" using 1(2) by (simp add: div_greater_zero_iff)
    then show ?thesis using 1 False by (simp add: digits_of_large digits_of_nonempty)
  qed
qed

lemma hex_byte:
  assumes "n < 256"
  shows "padStart 2 (CHR ''0'') (js_toString 16 (int n)) = [digit_char (n div 16), digit_char (n mod 16)]"
proof (cases "n < 16")
  case True
  then show ?thesis by (simp add: js_toString_def digits_of_small padStart_def digit_char_0)
next
  case False
  then have "n div 16 < 16" using assms by simp
  then show ?thesis using False
    by (simp add: js_toString_def digits_of_large digits_of_small padStart_def)
qed

lemma hex_of_Cons:
  "hex_of (uint (b :: byte) # xs) = [digit_char (unat b div 16), digit_char (unat b mod 16)] @ hex_of xs"
proof -
  have "unat b < 256" by (rule byte_bound)
  then show ?thesis using hex_byte [of "unat b"] by (simp add: hex_of_def)
qed

lemma parse_acc_hex_of:
  "parse_acc 16 acc (hex_of (map uint (bs :: byte list))) = Some (foldl (\<lambda>acc b. acc * 256 + unat b) acc bs)"
proof (induction bs arbitrary: acc)
  case Nil
  then show ?case by (simp add: hex_of_def)
next
  case (Cons b bs)
  have "unat b < 256" by (rule byte_bound)
  then have d1: "digit_val (digit_char (unat b div 16)) = Some (unat b div 16)"
    and d2: "digit_val (digit_char (unat b mod 16)) = Some (unat b mod 16)"
    by (simp_all add: digit_val_digit_char)
  have lt: "unat b div 16 < 16" "unat b mod 16 < 16" using \<open>unat b < 256\<close> by simp_all
  have "parse_acc 16 acc (hex_of (map uint (b # bs))) =
      parse_acc 16 ((acc * 16 + unat b div 16) * 16 + unat b mod 16) (hex_of (map uint bs))"
    using lt by (simp add: hex_of_Cons d1 d2)
  also have "(acc * 16 + unat b div 16) * 16 + unat b mod 16 = acc * 256 + unat b" by simp
  finally show ?case by (simp add: Cons.IH)
qed

lemma hex_of_digits: "c \<in> set (hex_of (map uint (bs :: byte list))) \<Longrightarrow> \<not> is_ws c"
proof (induction bs)
  case Nil
  then show ?case by (simp add: hex_of_def)
next
  case (Cons b bs)
  have "unat b < 256" by (rule byte_bound)
  then have "digit_val (digit_char (unat b div 16)) \<noteq> None" "digit_val (digit_char (unat b mod 16)) \<noteq> None"
    by (simp_all add: digit_val_digit_char)
  then show ?case using Cons is_ws_digit_val by (auto simp: hex_of_Cons)
qed

lemma trim_id: "s \<noteq> [] \<Longrightarrow> \<not> is_ws (hd s) \<Longrightarrow> \<not> is_ws (last s) \<Longrightarrow> trim s = s"
proof -
  assume a: "s \<noteq> []" "\<not> is_ws (hd s)" "\<not> is_ws (last s)"
  then have "dropWhile is_ws s = s" by (cases s) auto
  moreover have "dropWhile is_ws (rev s) = rev s" using a by (cases "rev s") (auto simp: last_rev hd_rev)
  ultimately show ?thesis by (simp add: trim_def)
qed

lemma bigint_of_hex_bytes: "bigint_of_hex (hex_of (map uint bs)) = Inr (int (be_value bs))"
proof (cases bs)
  case Nil
  then show ?thesis
    by (simp add: bigint_of_hex_def hex_of_def js_BigInt_def trim_def is_ws_def parse_radix_def
        digit_val_def be_value_def)
next
  case (Cons b bs')
  define h where "h = hex_of (map uint bs)"
  have ne: "h \<noteq> []" by (simp add: h_def Cons hex_of_Cons)
  then have "last (''0x'' @ h) \<in> set h" by simp
  then have "\<not> is_ws (last (''0x'' @ h))" unfolding h_def by (rule hex_of_digits)
  moreover have "\<not> is_ws (hd (''0x'' @ h))" by (simp add: is_ws_def)
  ultimately have "trim (''0x'' @ h) = ''0x'' @ h" by (intro trim_id) simp_all
  then have t: "trim (CHR ''0'' # CHR ''x'' # h) = CHR ''0'' # CHR ''x'' # h" by simp
  have "parse_radix 16 h = Some (be_value bs)"
    using ne by (simp add: parse_radix_def h_def parse_acc_hex_of be_value_def)
  then show ?thesis using ne
    by (simp add: bigint_of_hex_def js_BigInt_def t h_def [symmetric])
qed

lemma binary_or_zero_nat: "binary_or_zero (int n) = digits_of 2 n"
  by (simp add: binary_or_zero_def js_toString_def Let_def digits_of_nonempty)

lemma convert_try_bytes: "convert_try (map uint bs) = Inr (digits_of 2 (be_value bs))"
  by (simp add: convert_try_def bigint_of_hex_bytes binary_or_zero_nat)

lemma covertToBinary_bytes: "covertToBinary (uint8array bs) = (digits_of 2 (be_value bs), [])"
  by (cases bs) (simp_all add: covertToBinary_def uint8array_def convert_try_bytes
      be_value_def digits_of_small digit_char_0 del: list.map)

lemma foldl_be_zero:
  "foldl (\<lambda>acc (b :: byte). acc * 256 + unat b) acc bs = 0 \<longleftrightarrow> acc = 0 \<and> (\<forall>b\<in>set bs. b = 0)"
  by (induction bs arbitrary: acc) (auto simp: unsigned_eq_0_iff)

lemma be_value_zero_iff: "be_value bs = 0 \<longleftrightarrow> (\<forall>b\<in>set bs. b = 0)"
  by (simp add: be_value_def foldl_be_zero)

lemma digit_char_lt2: "d < 2 \<Longrightarrow> digit_char d = CHR ''0'' \<or> digit_char d = CHR ''1''"
proof -
  assume "d < 2"
  then have "d = 0 \<or> d = 1" by auto
  then show ?thesis by (auto simp: digit_char_def char_of_eq_iff)
qed

lemma digit_char_lt10: "d < 10 \<Longrightarrow> digit_char d \<in> set ''0123456789''"
proof -
  assume "d < 10"
  then have "d \<in> {0, 1, 2, 3, 4, 5, 6, 7, 8, 9}" by auto
  then show ?thesis by (auto simp: digit_char_def char_of_eq_iff)
qed

lemma binary_text_digits_of: "binary_text (digits_of 2 n)"
proof -
  have "set (digits_of 2 n) \<subseteq> digit_char ` {..<2}" by (rule set_digits_of) simp
  then have "\<forall>c\<in>set (digits_of 2 n). c = CHR ''0'' \<or> c = CHR ''1''"
    using digit_char_lt2 by blast
  then show ?thesis by (simp add: binary_text_def digits_of_nonempty list_all_iff)
qed

lemma decimal_text_digits_of: "decimal_text (digits_of 10 n)"
proof -
  have "set (digits_of 10 n) \<subseteq> digit_char ` {..<10}" by (rule set_digits_of) simp
  then have "\<forall>c\<in>set (digits_of 10 n). c \<in> set ''0123456789''"
    using digit_char_lt10 by blast
  then show ?thesis by (simp add: decimal_text_def digits_of_nonempty list_all_iff)
qed

lemma no_leading_zero_digits_of: "2 \<le> r \<Longrightarrow> r \<le> 36 \<Longrightarrow> no_leading_zero (digits_of r n)"
proof (cases "n = 0")
  case True
  assume "2 \<le> r"
  then show ?thesis using True by (simp add: no_leading_zero_def digits_of_small digit_char_0)
next
  case False
  assume "2 \<le> r" "r \<le> 36"
  then show ?thesis using False hd_digits_of [of r n] by (simp add: no_leading_zero_def)
qed

lemma dropWhile_append_stop: "\<not> P y \<Longrightarrow> dropWhile P (xs @ y # ys) = dropWhile P xs @ y # ys"
  by (induction xs) auto

lemma trim_0x:
  "trim (CHR ''0'' # CHR ''x'' # h) = CHR ''0'' # CHR ''x'' # rev (dropWhile is_ws (rev h))"
proof -
  have x: "\<not> is_ws (CHR ''x'')" and z: "\<not> is_ws (CHR ''0'')" by (simp_all add: is_ws_def)
  have "dropWhile is_ws (rev h @ CHR ''x'' # [CHR ''0'']) =
      dropWhile is_ws (rev h) @ CHR ''x'' # [CHR ''0'']"
    using x by (rule dropWhile_append_stop)
  then show ?thesis using z by (simp add: trim_def)
qed

lemma bigint_of_hex_nonneg: "bigint_of_hex h = Inr v \<Longrightarrow> 0 \<le> v"
proof -
  assume a: "bigint_of_hex h = Inr v"
  obtain t where t: "trim (CHR ''0'' # CHR ''x'' # (if h = [] then ''0'' else h)) = CHR ''0'' # CHR ''x'' # t"
    using trim_0x by blast
  have "js_BigInt (CHR ''0'' # CHR ''x'' # (if h = [] then ''0'' else h)) =
      (case parse_radix 16 t of None \<Rightarrow> Inl SyntaxError | Some n \<Rightarrow> Inr (int n))"
    unfolding js_BigInt_def t by simp
  then show ?thesis using a by (auto simp: bigint_of_hex_def split: option.splits)
qed

lemma convert_try_binary: "convert_try xs = Inr s \<Longrightarrow> binary_text s"
proof -
  assume a: "convert_try xs = Inr s"
  then obtain v where v: "bigint_of_hex (hex_of xs) = Inr v" and s: "s = binary_or_zero v"
    by (auto simp: convert_try_def split: sum.splits)
  from v have "0 \<le> v" by (rule bigint_of_hex_nonneg)
  then have "binary_or_zero v = digits_of 2 (nat v)"
    using binary_or_zero_nat [of "nat v"] by simp
  then show ?thesis using s by (simp add: binary_text_digits_of)
qed

lemma convert_try_Nil: "convert_try [] = Inr ''0''"
  by (simp add: convert_try_def hex_of_def bigint_of_hex_def js_BigInt_def trim_def is_ws_def
      parse_radix_def digit_val_def binary_or_zero_def js_toString_def digits_of_small digit_char_0)

subsection \<open>The callback and the loop of \<open>decodePayload\<close>\<close>

lemma bytes_field_eq: "bytes_field item k = Inr (field_bytes item k)"
  by (cases item) (auto simp: bytes_field_def field_bytes_def split: option.splits jsval.splits)

lemma data_array_eq: "data_array decoded = Inr (data_field decoded)"
  by (cases decoded) (auto simp: data_array_def data_field_def split: option.splits jsval.splits)

lemma item_try_eq:
  "item_try i b v =
     (if be_value v = 0 then (Inr None, [FilterZero i])
      else (Inr (Some \<lparr>bucketInBinary = digits_of 2 (be_value b),
                        valueInBinary = digits_of 2 (be_value v),
                        bucketInDecimal = digits_of 10 (be_value b),
                        valueInDecimal = digits_of 10 (be_value v)\<rparr>), []))"
  by (simp add: item_try_def bigint_of_hex_bytes covertToBinary_bytes binary_or_zero_nat
      js_toString_def)

lemma process_item_eq:
  "process_item item i =
     (case (field_bytes item ''bucket'', field_bytes item ''value'') of
        (Some b, Some v) \<Rightarrow>
          if be_value v = 0 then (Inr None, [FilterZero i])
          else (Inr (Some \<lparr>bucketInBinary = digits_of 2 (be_value b),
                        valueInBinary = digits_of 2 (be_value v),
                        bucketInDecimal = digits_of 10 (be_value b),
                        valueInDecimal = digits_of 10 (be_value v)\<rparr>), [])
      | _ \<Rightarrow> (Inr None, [SkipInvalid i item]))"
  by (simp add: process_item_def bytes_field_eq item_try_eq split: option.splits)

lemma process_item_fst: "fst (process_item item i) = Inr (item_record item)"
  by (simp add: item_record_def process_item_eq split: option.splits)

lemma map_items_fst: "fst (map_items n items) = Inr (map item_record items)"
proof (induction items arbitrary: n)
  case Nil
  then show ?case by simp
next
  case (Cons item items)
  obtain l where p: "process_item item n = (Inr (item_record item), l)"
    using process_item_fst [of item n] by (cases "process_item item n") simp
  obtain l' where m: "map_items (Suc n) items = (Inr (map item_record items), l')"
    using Cons.IH [of "Suc n"] by (cases "map_items (Suc n) items") simp
  show ?case by (simp add: p m)
qed

lemma map_items_snd_Cons:
  "snd (map_items n (item # items)) = snd (process_item item n) @ snd (map_items (Suc n) items)"
proof -
  obtain l where p: "process_item item n = (Inr (item_record item), l)"
    using process_item_fst [of item n] by (cases "process_item item n") simp
  obtain l' where m: "map_items (Suc n) items = (Inr (map item_record items), l')"
    using map_items_fst [of "Suc n" items] by (cases "map_items (Suc n) items") simp
  show ?thesis by (simp add: p m)
qed

lemma map_items_snd_append:
  "snd (map_items n (xs @ ys)) = snd (map_items n xs) @ snd (map_items (n + length xs) ys)"
proof (induction xs arbitrary: n)
  case Nil
  then show ?case by simp
next
  case (Cons x xs)
  show ?case using Cons.IH [of "Suc n"] by (simp add: map_items_snd_Cons del: map_items.simps)
qed

lemma decode_value_eq:
  "decode_value decoded =
     (case data_field decoded of
        None \<Rightarrow> (Inr [], [StructureMismatch decoded])
      | Some items \<Rightarrow> (Inr (filter_non_null (map item_record items)), snd (map_items 0 items)))"
proof (cases "data_field decoded")
  case None
  then show ?thesis by (simp add: decode_value_def data_array_eq)
next
  case (Some items)
  obtain l where m: "map_items 0 items = (Inr (map item_record items), l)"
    using map_items_fst [of 0 items] by (cases "map_items 0 items") simp
  show ?thesis by (simp add: decode_value_def data_array_eq Some m)
qed

lemma decodePayload_eq:
  "atob payload = Inr binary \<Longrightarrow> decodeFirst (map of_char binary) = Inr decoded \<Longrightarrow>
   decodePayload atob decodeFirst payload = decode_value decoded"
  by (simp add: decodePayload_def)

lemma filter_non_null_append:
  "filter_non_null (xs @ ys) = filter_non_null xs @ filter_non_null ys"
  by (simp add: filter_non_null_def)

lemma filter_non_null_Cons:
  "filter_non_null (x # xs) = (case x of None \<Rightarrow> filter_non_null xs | Some r \<Rightarrow> r # filter_non_null xs)"
  by (simp add: filter_non_null_def split: option.splits)

lemma map_Some_filter_non_null: "map Some (filter_non_null xs) = filter (\<lambda>item. item \<noteq> None) xs"
  by (induction xs) (auto simp: filter_non_null_def)

lemma length_filter_non_null: "length (filter_non_null xs) \<le> length xs"
  by (simp add: filter_non_null_def)

lemma length_filter_non_null_eq:
  "length (filter_non_null xs) = length xs \<longleftrightarrow> list_all (\<lambda>item. item \<noteq> None) xs"
proof (induction xs)
  case Nil
  then show ?case by (simp add: filter_non_null_def)
next
  case (Cons x xs)
  have "length (filter_non_null xs) \<le> length xs" by (rule length_filter_non_null)
  then show ?case using Cons by (cases x) (auto simp: filter_non_null_Cons)
qed

lemma item_record_eq:
  "item_record item =
     (case (field_bytes item ''bucket'', field_bytes item ''value'') of
        (Some b, Some v) \<Rightarrow>
          if be_value v = 0 then None
          else Some \<lparr>bucketInBinary = digits_of 2 (be_value b),
                     valueInBinary = digits_of 2 (be_value v),
                     bucketInDecimal = digits_of 10 (be_value b),
                     valueInDecimal = digits_of 10 (be_value v)\<rparr>
      | _ \<Rightarrow> None)"
  by (simp add: item_record_def process_item_eq split: option.splits)

lemma decodePayload_data:
  assumes "atob payload = Inr binary" and "decodeFirst (map of_char binary) = Inr decoded"
    and "data_field decoded = Some items"
  shows "decodePayload atob decodeFirst payload =
     (Inr (filter_non_null (map item_record items)), snd (map_items 0 items))"
  using assms by (simp add: decodePayload_eq decode_value_eq)

lemma list_all_filter_non_null:
  "(\<And>r. Some r \<in> set xs \<Longrightarrow> P r) \<Longrightarrow> list_all P (filter_non_null xs)"
  by (auto simp: filter_non_null_def list_all_iff)

lemma item_record_well_formed: "item_record item = Some r \<Longrightarrow> well_formed r"
  by (auto simp: item_record_eq well_formed_def binary_text_digits_of decimal_text_digits_of
      no_leading_zero_digits_of split: option.splits if_splits)

lemma item_record_consistent: "item_record item = Some r \<Longrightarrow> consistent r"
  by (auto simp: item_record_eq consistent_def same_number_def parse_radix_digits_of
      split: option.splits if_splits)

section \<open>The claims\<close>

text \<open>
  In the theorems about \<open>decodePayload\<close>, \<open>atob\<close> and \<open>decodeFirst\<close> are arbitrary
  functions. A payload reaches the loop over the array when \<open>atob\<close> returns a string
  \<open>binary\<close>, \<open>decodeFirst\<close> returns a value \<open>decoded\<close> for its bytes, and \<open>decoded\<close> has a
  \<open>data\<close> field holding the array.
\<close>

text \<open>
  Claim C1. An array element whose \<open>value\<close> field is a byte string that denotes the
  big-endian integer 0 gives \<open>null\<close> in the callback, whatever its \<open>bucket\<close> field is,
  and the sequence \<open>decodePayload\<close> returns consists of the records of the other
  elements only.
\<close>

theorem zero_value_omitted:
  assumes "field_bytes item ''value'' = Some v" and "be_value v = 0"
  shows "fst (process_item item index) = Inr None \<and>
    (atob payload = Inr binary \<and> decodeFirst (map of_char binary) = Inr decoded \<and>
     data_field decoded = Some (xs @ item # ys) \<longrightarrow>
     fst (decodePayload atob decodeFirst payload) =
       Inr (filter_non_null (map item_record (xs @ ys))))"
proof -
  have n: "item_record item = None"
    using assms by (simp add: item_record_eq split: option.splits)
  then have "fst (process_item item index) = Inr None" by (simp add: process_item_fst)
  moreover have "fst (decodePayload atob decodeFirst payload) =
       Inr (filter_non_null (map item_record (xs @ ys)))"
    if "atob payload = Inr binary" "decodeFirst (map of_char binary) = Inr decoded"
      "data_field decoded = Some (xs @ item # ys)"
    using that n by (simp add: decodePayload_data filter_non_null_append filter_non_null_Cons)
  ultimately show ?thesis by blast
qed

theorem zero_value_omitted_witness:
  "field_bytes (pair_item [255] [0, 0]) ''value'' = Some [0, 0] \<and>
   be_value [0, 0] = 0 \<and>
   fst (process_item (pair_item [255] [0, 0]) 1) = Inr None \<and>
   fst (decodePayload (\<lambda>s. Inr s)
      (\<lambda>bs. Inr (envelope [pair_item [1] [2], pair_item [255] [0, 0], pair_item [16] [16]])) ''x'') =
     Inr [\<lparr>bucketInBinary = ''1'', valueInBinary = ''10'',
           bucketInDecimal = ''1'', valueInDecimal = ''2''\<rparr>,
          \<lparr>bucketInBinary = ''10000'', valueInBinary = ''10000'',
           bucketInDecimal = ''16'', valueInDecimal = ''16''\<rparr>]"
proof -
  have a: "field_bytes (pair_item [255] [0, 0]) ''value'' = Some [0, 0]"
    by (simp add: field_bytes_def)
  have b: "be_value [0, 0] = 0" by (simp add: be_value_def)
  have c: "filter_non_null (map item_record ([pair_item [1] [2]] @ [pair_item [16] [16]])) =
     [\<lparr>bucketInBinary = ''1'', valueInBinary = ''10'',
       bucketInDecimal = ''1'', valueInDecimal = ''2''\<rparr>,
      \<lparr>bucketInBinary = ''10000'', valueInBinary = ''10000'',
       bucketInDecimal = ''16'', valueInDecimal = ''16''\<rparr>]"
    by code_simp
  have d: "data_field (envelope ([pair_item [1] [2]] @ pair_item [255] [0, 0] # [pair_item [16] [16]])) =
      Some ([pair_item [1] [2]] @ pair_item [255] [0, 0] # [pair_item [16] [16]])"
    by (simp add: data_field_def)
  have "fst (process_item (pair_item [255] [0, 0]) 1) = Inr None \<and>
    fst (decodePayload (\<lambda>s. Inr s)
      (\<lambda>bs. Inr (envelope ([pair_item [1] [2]] @ pair_item [255] [0, 0] # [pair_item [16] [16]]))) ''x'') =
       Inr (filter_non_null (map item_record ([pair_item [1] [2]] @ [pair_item [16] [16]])))"
    using zero_value_omitted [OF a b, of 1 "\<lambda>s. Inr s" "''x''" "''x''"
        "\<lambda>bs. Inr (envelope ([pair_item [1] [2]] @ pair_item [255] [0, 0] # [pair_item [16] [16]]))"
        "envelope ([pair_item [1] [2]] @ pair_item [255] [0, 0] # [pair_item [16] [16]])"
        "[pair_item [1] [2]]" "[pair_item [16] [16]]"] d
    by blast
  then show ?thesis unfolding c using a b by simp
qed

text \<open>
  Claim C2. The string \<open>covertToBinary\<close> returns for a byte sequence \<open>B\<close>, read as an
  unsigned number in base 2, is the big-endian value of \<open>B\<close>; this holds for the empty
  sequence too. For a non-empty \<open>B\<close> that value is also what the two-digit hexadecimal
  text of the bytes denotes.
\<close>

theorem covertToBinary_value:
  "parse_radix 2 (fst (covertToBinary (uint8array B))) = Some (be_value B) \<and>
   (B \<noteq> [] \<longrightarrow> parse_radix 16 (hex_of (map uint B)) = Some (be_value B))"
proof -
  have "parse_radix 2 (fst (covertToBinary (uint8array B))) = Some (be_value B)"
    by (simp add: covertToBinary_bytes parse_radix_digits_of)
  moreover have "parse_radix 16 (hex_of (map uint B)) = Some (be_value B)" if "B \<noteq> []"
  proof -
    have "hex_of (map uint B) \<noteq> []" using that by (cases B) (simp_all add: hex_of_Cons)
    then show ?thesis by (simp add: parse_radix_def parse_acc_hex_of be_value_def)
  qed
  ultimately show ?thesis by blast
qed

theorem covertToBinary_value_witness:
  "[1, 2 :: byte] \<noteq> [] \<and> fst (covertToBinary (uint8array [1, 2])) = ''100000010'' \<and>
   parse_radix 2 ''100000010'' = Some (be_value [1, 2]) \<and>
   hex_of (map uint [1, 2 :: byte]) = ''0102'' \<and> parse_radix 16 ''0102'' = Some (be_value [1, 2])"
proof -
  have "fst (covertToBinary (uint8array [1, 2])) = ''100000010''" by code_simp
  moreover have "hex_of (map uint [1, 2 :: byte]) = ''0102''" by code_simp
  ultimately show ?thesis using covertToBinary_value [of "[1, 2]"] by simp
qed

text \<open>
  Claim C3. On an absent argument, on an empty byte sequence and on a byte sequence of
  zero bytes only, \<open>covertToBinary\<close> returns exactly the string \<open>0\<close>, and logs nothing.
\<close>

theorem covertToBinary_zero:
  "covertToBinary Absent = (''0'', []) \<and>
   covertToBinary (uint8array []) = (''0'', []) \<and>
   ((\<forall>b\<in>set bs. b = 0) \<longrightarrow> covertToBinary (uint8array bs) = (''0'', []))"
proof -
  have "covertToBinary Absent = (''0'', [])" by (simp add: covertToBinary_def)
  moreover have "covertToBinary (uint8array []) = (''0'', [])"
    by (simp add: covertToBinary_def uint8array_def)
  moreover have "covertToBinary (uint8array bs) = (''0'', [])" if "\<forall>b\<in>set bs. b = 0"
  proof -
    from that have "be_value bs = 0" by (simp add: be_value_zero_iff)
    then show ?thesis by (simp add: covertToBinary_bytes digits_of_small digit_char_0)
  qed
  ultimately show ?thesis by blast
qed

theorem covertToBinary_zero_witness:
  "list_all (\<lambda>b. b = 0) [0, 0, 0 :: byte] \<and> covertToBinary (uint8array [0, 0, 0]) = (''0'', [])"
  using covertToBinary_zero [of "[0, 0, 0]"] by simp

text \<open>
  Claim C4. \<open>decodePayload\<close> returns, and the sequence it returns is the per-element
  results with the skipped elements (those whose result is \<open>null\<close>) removed: a
  subsequence in the same order, no longer than the input array, and as long as the
  input array exactly when no element was skipped.
\<close>

theorem output_subsequence:
  assumes "atob payload = Inr binary" and "decodeFirst (map of_char binary) = Inr decoded"
    and "data_field decoded = Some items"
  shows "case fst (decodePayload atob decodeFirst payload) of
           Inl e \<Rightarrow> False
         | Inr out \<Rightarrow>
             map Some out = filter (\<lambda>r. r \<noteq> None) (map item_record items) \<and>
             subseq (map Some out) (map item_record items) \<and>
             length out \<le> length items \<and>
             (length out = length items) = list_all (\<lambda>item. item_record item \<noteq> None) items"
proof -
  let ?per = "map item_record items"
  have "length (filter_non_null ?per) \<le> length items"
    using length_filter_non_null [of ?per] by simp
  moreover have "(length (filter_non_null ?per) = length items) =
      list_all (\<lambda>item. item_record item \<noteq> None) items"
    using length_filter_non_null_eq [of ?per] by (simp add: list_all_iff)
  ultimately show ?thesis
    using assms by (simp add: decodePayload_data map_Some_filter_non_null)
qed

theorem output_subsequence_witness:
  "fst (decodePayload (\<lambda>s. Inr s)
      (\<lambda>bs. Inr (envelope [pair_item [255] [1], pair_item [0] [0], pair_item [16] [16]])) ''x'') =
     Inr [\<lparr>bucketInBinary = ''11111111'', valueInBinary = ''1'',
           bucketInDecimal = ''255'', valueInDecimal = ''1''\<rparr>,
          \<lparr>bucketInBinary = ''10000'', valueInBinary = ''10000'',
           bucketInDecimal = ''16'', valueInDecimal = ''16''\<rparr>] \<and>
   subseq
     [Some \<lparr>bucketInBinary = ''11111111'', valueInBinary = ''1'',
           bucketInDecimal = ''255'', valueInDecimal = ''1''\<rparr>,
      Some \<lparr>bucketInBinary = ''10000'', valueInBinary = ''10000'',
           bucketInDecimal = ''16'', valueInDecimal = ''16''\<rparr>]
     (map item_record [pair_item [255] [1], pair_item [0] [0], pair_item [16] [16]]) \<and>
   list_all (\<lambda>item. item_record item \<noteq> None)
     [pair_item [255] [1], pair_item [0] [0], pair_item [16] [16]] = False"
proof -
  have e: "fst (decodePayload (\<lambda>s. Inr s)
      (\<lambda>bs. Inr (envelope [pair_item [255] [1], pair_item [0] [0], pair_item [16] [16]])) ''x'') =
     Inr [\<lparr>bucketInBinary = ''11111111'', valueInBinary = ''1'',
           bucketInDecimal = ''255'', valueInDecimal = ''1''\<rparr>,
          \<lparr>bucketInBinary = ''10000'', valueInBinary = ''10000'',
           bucketInDecimal = ''16'', valueInDecimal = ''16''\<rparr>]"
    by code_simp
  have d: "data_field (envelope [pair_item [255] [1], pair_item [0] [0], pair_item [16] [16]]) =
      Some [pair_item [255] [1], pair_item [0] [0], pair_item [16] [16]]"
    by (simp add: data_field_def)
  show ?thesis
    using output_subsequence [of "\<lambda>s. Inr s" "''x''" "''x''"
      "\<lambda>bs. Inr (envelope [pair_item [255] [1], pair_item [0] [0], pair_item [16] [16]])"
      "envelope [pair_item [255] [1], pair_item [0] [0], pair_item [16] [16]]"
      "[pair_item [255] [1], pair_item [0] [0], pair_item [16] [16]]", OF refl refl d]
    unfolding e by simp
qed

text \<open>
  Claim C5. When the decoded value has no \<open>data\<close> field holding an array,
  \<open>decodePayload\<close> does not throw: it returns the empty sequence and logs the
  structural-mismatch diagnostic, and nothing else.
\<close>

theorem structure_mismatch:
  assumes "atob payload = Inr binary" and "decodeFirst (map of_char binary) = Inr decoded"
    and "data_field decoded = None"
  shows "decodePayload atob decodeFirst payload = (Inr [], [StructureMismatch decoded])"
  using assms by (simp add: decodePayload_eq decode_value_eq)

theorem structure_mismatch_witness:
  "data_field (JObj [(''data'', JNum 5)]) = None \<and>
   decodePayload (\<lambda>s. Inr s) (\<lambda>bs. Inr (JObj [(''data'', JNum 5)])) ''x'' =
     (Inr [], [StructureMismatch (JObj [(''data'', JNum 5)])]) \<and>
   data_field JNull = None \<and>
   decodePayload (\<lambda>s. Inr s) (\<lambda>bs. Inr JNull) ''x'' = (Inr [], [StructureMismatch JNull])"
  using structure_mismatch [of "\<lambda>s. Inr s" "''x''" "''x''" "\<lambda>bs. Inr (JObj [(''data'', JNum 5)])"
      "JObj [(''data'', JNum 5)]"]
    structure_mismatch [of "\<lambda>s. Inr s" "''x''" "''x''" "\<lambda>bs. Inr JNull" JNull]
  by (simp add: data_field_def)



text \<open>
  Claim C7. An array element whose \<open>bucket\<close> or \<open>value\<close> field is missing or not a byte
  string gives \<open>null\<close> in the callback and one diagnostic that names its index. The
  decode goes on: the returned sequence is the records of the elements before it
  followed by the records of the elements after it, and the log is the log of the
  elements before, the diagnostic, and the log of the elements after, each processed
  with its own index.
\<close>

theorem invalid_item_skipped:
  assumes "field_bytes item ''bucket'' = None \<or> field_bytes item ''value'' = None"
  shows "process_item item index = (Inr None, [SkipInvalid index item]) \<and>
    (atob payload = Inr binary \<and> decodeFirst (map of_char binary) = Inr decoded \<and>
     data_field decoded = Some (xs @ item # ys) \<longrightarrow>
     decodePayload atob decodeFirst payload =
       (Inr (filter_non_null (map item_record xs) @ filter_non_null (map item_record ys)),
        snd (map_items 0 xs) @ [SkipInvalid (length xs) item] @
        snd (map_items (Suc (length xs)) ys)))"
proof -
  have p: "process_item item i = (Inr None, [SkipInvalid i item])" for i
    using assms by (auto simp: process_item_eq split: option.splits)
  then have n: "item_record item = None" by (simp add: item_record_def)
  have "decodePayload atob decodeFirst payload =
       (Inr (filter_non_null (map item_record xs) @ filter_non_null (map item_record ys)),
        snd (map_items 0 xs) @ [SkipInvalid (length xs) item] @
        snd (map_items (Suc (length xs)) ys))"
    if "atob payload = Inr binary" "decodeFirst (map of_char binary) = Inr decoded"
      "data_field decoded = Some (xs @ item # ys)"
    using that n
    by (simp add: decodePayload_data filter_non_null_append filter_non_null_Cons
        map_items_snd_append map_items_snd_Cons p del: map_items.simps)
  then show ?thesis using p by blast
qed

theorem invalid_item_skipped_witness:
  "field_bytes (JObj [(''bucket'', JBytes [1]), (''value'', JNum 7)]) ''value'' = None \<and>
   process_item (JObj [(''bucket'', JBytes [1]), (''value'', JNum 7)]) 1 =
     (Inr None, [SkipInvalid 1 (JObj [(''bucket'', JBytes [1]), (''value'', JNum 7)])]) \<and>
   decodePayload (\<lambda>s. Inr s)
     (\<lambda>bs. Inr (envelope [pair_item [255] [1], JObj [(''bucket'', JBytes [1]), (''value'', JNum 7)],
        pair_item [16] [0]])) ''x'' =
     (Inr [\<lparr>bucketInBinary = ''11111111'', valueInBinary = ''1'',
            bucketInDecimal = ''255'', valueInDecimal = ''1''\<rparr>],
      [SkipInvalid 1 (JObj [(''bucket'', JBytes [1]), (''value'', JNum 7)]), FilterZero 2])"
proof -
  let ?item = "JObj [(''bucket'', JBytes [1]), (''value'', JNum 7)]"
  have a: "field_bytes ?item ''value'' = None"
    by (simp add: field_bytes_def)
  then have b: "field_bytes ?item ''bucket'' = None \<or> field_bytes ?item ''value'' = None" by simp
  have d: "data_field (envelope ([pair_item [255] [1]] @ ?item # [pair_item [16] [0]])) =
      Some ([pair_item [255] [1]] @ ?item # [pair_item [16] [0]])"
    by (simp add: data_field_def)
  have c1: "filter_non_null (map item_record [pair_item [255] [1]]) =
      [\<lparr>bucketInBinary = ''11111111'', valueInBinary = ''1'',
            bucketInDecimal = ''255'', valueInDecimal = ''1''\<rparr>]" by code_simp
  have c2: "filter_non_null (map item_record [pair_item [16] [0]]) = []" by code_simp
  have c3: "snd (map_items 0 [pair_item [255] [1]]) = []" by code_simp
  have c4: "snd (map_items (Suc (length [pair_item [255] [1]])) [pair_item [16] [0]]) = [FilterZero 2]"
    by code_simp
  have "process_item ?item 1 = (Inr None, [SkipInvalid 1 ?item]) \<and>
     decodePayload (\<lambda>s. Inr s)
       (\<lambda>bs. Inr (envelope ([pair_item [255] [1]] @ ?item # [pair_item [16] [0]]))) ''x'' =
       (Inr (filter_non_null (map item_record [pair_item [255] [1]]) @
             filter_non_null (map item_record [pair_item [16] [0]])),
        snd (map_items 0 [pair_item [255] [1]]) @ [SkipInvalid (length [pair_item [255] [1]]) ?item] @
        snd (map_items (Suc (length [pair_item [255] [1]])) [pair_item [16] [0]]))"
    using invalid_item_skipped [OF b, of 1 "\<lambda>s. Inr s" "''x''" "''x''"
        "\<lambda>bs. Inr (envelope ([pair_item [255] [1]] @ ?item # [pair_item [16] [0]]))"
        "envelope ([pair_item [255] [1]] @ ?item # [pair_item [16] [0]])"
        "[pair_item [255] [1]]" "[pair_item [16] [0]]"] d
    by blast
  then show ?thesis unfolding c1 c2 c3 c4 using a by simp
qed

text \<open>
  Claim C8. When the conversion inside \<open>covertToBinary\<close> throws, \<open>covertToBinary\<close>
  returns the string \<open>Error\<close> and logs the error. \<open>Error\<close> is no binary text. On every
  argument \<open>covertToBinary\<close> returns a binary text or the string \<open>Error\<close>.
\<close>

theorem conversion_failure_sentinel:
  "(convert_try xs = Inl e \<longrightarrow>
      covertToBinary (Elements xs) = (''Error'', [ConversionError e (Elements xs)])) \<and>
   \<not> binary_text ''Error'' \<and>
   (binary_text (fst (covertToBinary bytes)) \<or> fst (covertToBinary bytes) = ''Error'')"
proof -
  have "covertToBinary (Elements xs) = (''Error'', [ConversionError e (Elements xs)])"
    if "convert_try xs = Inl e"
  proof -
    from that have "xs \<noteq> []" using convert_try_Nil by auto
    then show ?thesis using that by (simp add: covertToBinary_def)
  qed
  moreover have "\<not> binary_text ''Error''" by (simp add: binary_text_def)
  moreover have "binary_text (fst (covertToBinary bytes)) \<or> fst (covertToBinary bytes) = ''Error''"
  proof (cases bytes)
    case Absent
    then show ?thesis by (simp add: covertToBinary_def binary_text_def)
  next
    case (Elements ys)
    show ?thesis
    proof (cases "convert_try ys")
      case (Inl err)
      then show ?thesis using Elements by (simp add: covertToBinary_def binary_text_def)
    next
      case (Inr s)
      then have "binary_text s" by (rule convert_try_binary)
      then show ?thesis using Elements Inr by (simp add: covertToBinary_def binary_text_def)
    qed
  qed
  ultimately show ?thesis by blast
qed

theorem conversion_failure_sentinel_witness:
  "convert_try [- 1] = Inl SyntaxError \<and>
   covertToBinary (Elements [- 1]) = (''Error'', [ConversionError SyntaxError (Elements [- 1])]) \<and>
   \<not> binary_text ''Error''"
proof -
  have "convert_try [- 1] = Inl SyntaxError" by code_simp
  then show ?thesis
    using conversion_failure_sentinel [of "[- 1]" SyntaxError Absent] by simp
qed

text \<open>
  Claim C9. \<open>decodePayload\<close> returns, and every record it returns has four text
  fields (the type \<open>contribution\<close> has no other), the binary ones over the digits 0 and
  1, the decimal ones over the digits 0 to 9, none with a superfluous leading zero.
\<close>

theorem records_well_formed:
  assumes "atob payload = Inr binary" and "decodeFirst (map of_char binary) = Inr decoded"
    and "data_field decoded = Some items"
  shows "case fst (decodePayload atob decodeFirst payload) of
           Inl e \<Rightarrow> False
         | Inr out \<Rightarrow> list_all well_formed out"
proof -
  have "list_all well_formed (filter_non_null (map item_record items))"
    by (rule list_all_filter_non_null) (auto dest: item_record_well_formed [OF sym])
  then show ?thesis using assms by (simp add: decodePayload_data)
qed

theorem records_well_formed_witness:
  "fst (decodePayload (\<lambda>s. Inr s)
      (\<lambda>bs. Inr (envelope [pair_item [0, 255] [1], pair_item [0] [0]])) ''x'') =
     Inr [\<lparr>bucketInBinary = ''11111111'', valueInBinary = ''1'',
           bucketInDecimal = ''255'', valueInDecimal = ''1''\<rparr>] \<and>
   list_all well_formed
     [\<lparr>bucketInBinary = ''11111111'', valueInBinary = ''1'',
       bucketInDecimal = ''255'', valueInDecimal = ''1''\<rparr>]"
proof -
  have "fst (decodePayload (\<lambda>s. Inr s)
      (\<lambda>bs. Inr (envelope [pair_item [0, 255] [1], pair_item [0] [0]])) ''x'') =
     Inr [\<lparr>bucketInBinary = ''11111111'', valueInBinary = ''1'',
           bucketInDecimal = ''255'', valueInDecimal = ''1''\<rparr>]"
    by code_simp
  then show ?thesis
    using records_well_formed [of "\<lambda>s. Inr s" "''x''" "''x''"
        "\<lambda>bs. Inr (envelope [pair_item [0, 255] [1], pair_item [0] [0]])"
        "envelope [pair_item [0, 255] [1], pair_item [0] [0]]"
        "[pair_item [0, 255] [1], pair_item [0] [0]]"]
    by (simp add: data_field_def)
qed

text \<open>
  Claim C10. In every record \<open>decodePayload\<close> returns, \<open>bucketInBinary\<close> read in base 2
  and \<open>bucketInDecimal\<close> read in base 10 are the same number, and so are
  \<open>valueInBinary\<close> and \<open>valueInDecimal\<close>, whose number is not zero.
\<close>

theorem records_consistent:
  assumes "atob payload = Inr binary" and "decodeFirst (map of_char binary) = Inr decoded"
    and "data_field decoded = Some items"
  shows "case fst (decodePayload atob decodeFirst payload) of
           Inl e \<Rightarrow> False
         | Inr out \<Rightarrow> list_all consistent out"
proof -
  have "list_all consistent (filter_non_null (map item_record items))"
    by (rule list_all_filter_non_null) (auto dest: item_record_consistent [OF sym])
  then show ?thesis using assms by (simp add: decodePayload_data)
qed

theorem records_consistent_witness:
  "fst (decodePayload (\<lambda>s. Inr s)
      (\<lambda>bs. Inr (envelope [pair_item [1] [2], pair_item [16] [1, 0]])) ''x'') =
     Inr [\<lparr>bucketInBinary = ''1'', valueInBinary = ''10'',
           bucketInDecimal = ''1'', valueInDecimal = ''2''\<rparr>,
          \<lparr>bucketInBinary = ''10000'', valueInBinary = ''100000000'',
           bucketInDecimal = ''16'', valueInDecimal = ''256''\<rparr>] \<and>
   list_all consistent
     [\<lparr>bucketInBinary = ''1'', valueInBinary = ''10'',
       bucketInDecimal = ''1'', valueInDecimal = ''2''\<rparr>,
      \<lparr>bucketInBinary = ''10000'', valueInBinary = ''100000000'',
       bucketInDecimal = ''16'', valueInDecimal = ''256''\<rparr>]"
proof -
  have "fst (decodePayload (\<lambda>s. Inr s)
      (\<lambda>bs. Inr (envelope [pair_item [1] [2], pair_item [16] [1, 0]])) ''x'') =
     Inr [\<lparr>bucketInBinary = ''1'', valueInBinary = ''10'',
           bucketInDecimal = ''1'', valueInDecimal = ''2''\<rparr>,
          \<lparr>bucketInBinary = ''10000'', valueInBinary = ''100000000'',
           bucketInDecimal = ''16'', valueInDecimal = ''256''\<rparr>]"
    by code_simp
  then show ?thesis
    using records_consistent [of "\<lambda>s. Inr s" "''x''" "''x''"
        "\<lambda>bs. Inr (envelope [pair_item [1] [2], pair_item [16] [1, 0]])"
        "envelope [pair_item [1] [2], pair_item [16] [1, 0]]"
        "[pair_item [1] [2], pair_item [16] [1, 0]]"]
    by (simp add: data_field_def)
qed

end
